theory Spec2Isabelle
  imports Main "HOL-Library.Word"
begin

section \<open>The pseudo character device of pcd.c\<close>

text \<open>
  The driver keeps one global array \<open>char device_buffer[DEV_MEM_SIZE]\<close> and implements the
  five file operations \<open>pcd_open\<close>, \<open>pcd_read\<close>, \<open>pcd_write\<close>, \<open>pcd_lseek\<close> and
  \<open>pcd_release\<close>. The model is for a 64-bit kernel (LP64):
  \<^item> \<open>loff_t\<close> is \<open>long long\<close>, a signed 64-bit integer: a \<open>64 word\<close> read with \<open>sint\<close>;
  \<^item> \<open>size_t\<close> is \<open>unsigned long\<close>, an unsigned 64-bit integer: a \<open>64 word\<close> read with
    \<open>unat\<close>; the order \<open>\<le>\<close> and \<open><\<close> on words is the unsigned one;
  \<^item> \<open>ssize_t\<close> is \<open>long\<close>: a \<open>64 word\<close>, with error codes returned as \<open>- E\<close>;
  \<^item> \<open>int\<close> is a \<open>32 word\<close>.
  In \<open>*f_pos + count\<close> the operands are a \<open>long long\<close> and an \<open>unsigned long\<close> of the
  same width, so C converts both to \<open>unsigned long long\<close>: the sum wraps modulo \<open>2 ^ 64\<close>
  and the comparison with \<open>DEV_MEM_SIZE\<close> is unsigned. The kernel is built with
  \<open>-fno-strict-overflow\<close>, so signed sums such as \<open>filp->f_pos + off\<close> wrap as well.
\<close>

type_synonym byte = "8 word"
type_synonym loff_t = "64 word"
type_synonym size_t = "64 word"
type_synonym ssize_t = "64 word"

subsection \<open>Constants\<close>

definition DEV_MEM_SIZE :: "64 word" where
  "DEV_MEM_SIZE = 512"

text \<open>The error numbers of \<open>linux/errno.h\<close> and the seek modes of \<open>linux/fs.h\<close>.\<close>

definition EFAULT :: "64 word" where
  "EFAULT = 14"

definition EINVAL :: "64 word" where
  "EINVAL = 22"

definition ENOSPC :: "64 word" where
  "ENOSPC = 28"

definition SEEK_SET :: "32 word" where
  "SEEK_SET = 0"

definition SEEK_CUR :: "32 word" where
  "SEEK_CUR = 1"

definition SEEK_END :: "32 word" where
  "SEEK_END = 2"

subsection \<open>State\<close>

text \<open>
  \<open>struct file\<close>: the driver uses the field \<open>f_pos\<close> only. The state that the file
  operations can reach is the global \<open>device_buffer\<close> and the \<open>struct file\<close> objects of the
  open sessions, kept in a store indexed by the address \<open>filp\<close>.
\<close>

record file_struct =
  f_pos :: loff_t

record pcd_state =
  device_buffer :: "byte list"
  files :: "nat \<Rightarrow> file_struct"

text \<open>The array has \<open>DEV_MEM_SIZE\<close> elements.\<close>

definition wf_state :: "pcd_state \<Rightarrow> bool" where
  "wf_state s \<longleftrightarrow> length (device_buffer s) = unat DEV_MEM_SIZE"

text \<open>The invariant on a position: \<open>0 \<le> pos \<le> DEV_MEM_SIZE\<close>, read as a signed value.\<close>

definition pos_ok :: "loff_t \<Rightarrow> bool" where
  "pos_ok p \<longleftrightarrow> 0 \<le> sint p \<and> sint p \<le> sint DEV_MEM_SIZE"

subsection \<open>The user-space copy primitives\<close>

text \<open>
  \<open>copy_to_user\<close> and \<open>copy_from_user\<close> belong to the kernel, not to the driver. Both return
  the number of bytes that could not be copied, 0 on success. The caller's buffer \<open>buff\<close> is
  modelled by the bytes that are accessible from that address on: a transfer of \<open>n\<close> bytes
  succeeds when at least \<open>n\<close> bytes are accessible, and otherwise stops at the first
  inaccessible byte. \<open>copy_from_user\<close> fills the part of the destination it could not copy
  with zero bytes.

  Both primitives start with \<open>check_copy_size\<close>, which refuses a size above \<open>INT_MAX\<close>:
  the primitive then copies nothing, touches neither buffer and returns the whole size as
  uncopied. The definitions below describe the copy of an accepted size.
\<close>

definition INT_MAX :: nat where
  "INT_MAX = 2147483647"

definition check_copy_size :: "nat \<Rightarrow> bool" where
  "check_copy_size n \<longleftrightarrow> n \<le> INT_MAX"

definition copy_to_user :: "byte list \<Rightarrow> byte list \<Rightarrow> nat \<Rightarrow> nat \<times> byte list" where
  "copy_to_user dst src n =
     (let k = min n (length dst) in (n - k, take k src @ drop k dst))"

definition copy_from_user :: "byte list \<Rightarrow> nat \<Rightarrow> nat \<times> byte list" where
  "copy_from_user src n =
     (let k = min n (length src) in (n - k, take k src @ replicate (n - k) 0))"

subsection \<open>Results of read and write\<close>

text \<open>
  A call returns a value and leaves a position \<open>*f_pos\<close>, a driver state and a user buffer.
  Indexing \<open>device_buffer\<close> outside the array is undefined in C; the model makes it the
  outcome \<open>BufferOverrun\<close>: a copy primitive accepts the size and is handed a kernel range
  \<open>[f_pos, f_pos + count)\<close> that is not inside \<open>device_buffer\<close>. This needs a negative
  position (lemma \<open>no_overrun\<close> below): from a position that is not negative, a range that
  leaves the array has a size above \<open>INT_MAX\<close>, which the primitive refuses.
\<close>

datatype rw_outcome =
  Ret (retval: ssize_t) (r_pos: loff_t) (r_state: pcd_state) (r_user: "byte list")
  | BufferOverrun

definition in_buffer :: "loff_t \<Rightarrow> size_t \<Rightarrow> bool" where
  "in_buffer pos count \<longleftrightarrow> 0 \<le> sint pos \<and> sint pos + uint count \<le> uint DEV_MEM_SIZE"

text \<open>
  Lines 86-89 and 118-121, the same in \<open>pcd_read\<close> and \<open>pcd_write\<close>:
  \<^verbatim>\<open>if ((*f_pos + count) > DEV_MEM_SIZE) count = DEV_MEM_SIZE - *f_pos;\<close>
\<close>

definition effective_count :: "loff_t \<Rightarrow> size_t \<Rightarrow> size_t" where
  "effective_count pos count =
     (if pos + count > DEV_MEM_SIZE then DEV_MEM_SIZE - pos else count)"

subsection \<open>The file operations\<close>

definition pcd_lseek :: "pcd_state \<Rightarrow> nat \<Rightarrow> loff_t \<Rightarrow> 32 word \<Rightarrow> loff_t \<times> pcd_state" where
  "pcd_lseek s filp off whence =
     (if whence \<noteq> SEEK_SET \<and> whence \<noteq> SEEK_CUR \<and> whence \<noteq> SEEK_END then (- EINVAL, s)
      else
        let temp_f_pos =
              (if whence = SEEK_SET then off
               else if whence = SEEK_CUR then f_pos (files s filp) + off
               else DEV_MEM_SIZE + off)
        in if sint temp_f_pos < 0 \<or> sint temp_f_pos > sint DEV_MEM_SIZE then (- EINVAL, s)
           else (temp_f_pos,
                 s\<lparr>files := (files s)(filp := (files s filp)\<lparr>f_pos := temp_f_pos\<rparr>)\<rparr>))"

text \<open>
  \<open>pcd_read\<close> and \<open>pcd_write\<close> receive the position through the pointer \<open>f_pos\<close>: the
  model takes its value \<open>pos\<close> and returns the value left behind it. \<open>count\<close> is
  unsigned, so the test \<open>count <= 0\<close> of the source is the unsigned comparison: it holds
  for \<open>count = 0\<close> only. The call of the copy primitive has three outcomes: the primitive
  refuses the size and reports all bytes uncopied, so that the driver returns \<open>-EFAULT\<close>;
  it is handed a range outside the array; or it copies.
\<close>

definition pcd_read :: "pcd_state \<Rightarrow> nat \<Rightarrow> byte list \<Rightarrow> size_t \<Rightarrow> loff_t \<Rightarrow> rw_outcome" where
  "pcd_read s filp buff count pos =
     (let count = effective_count pos count
      in if count \<le> 0 then Ret 0 pos s buff
         else if \<not> check_copy_size (unat count) then Ret (- EFAULT) pos s buff
         else if \<not> in_buffer pos count then BufferOverrun
         else
           case copy_to_user buff (take (unat count) (drop (unat pos) (device_buffer s)))
                  (unat count) of
             (left, buff') \<Rightarrow>
               if left \<noteq> 0 then Ret (- EFAULT) pos s buff'
               else Ret count (pos + count) s buff')"

definition pcd_write :: "pcd_state \<Rightarrow> nat \<Rightarrow> byte list \<Rightarrow> size_t \<Rightarrow> loff_t \<Rightarrow> rw_outcome" where
  "pcd_write s filp buff count pos =
     (let count = effective_count pos count
      in if count \<le> 0 then Ret (- ENOSPC) pos s buff
         else if \<not> check_copy_size (unat count) then Ret (- EFAULT) pos s buff
         else if \<not> in_buffer pos count then BufferOverrun
         else
           case copy_from_user buff (unat count) of
             (left, data) \<Rightarrow>
               let s' = s\<lparr>device_buffer :=
                           take (unat pos) (device_buffer s) @ data
                             @ drop (unat pos + unat count) (device_buffer s)\<rparr>
               in if left \<noteq> 0 then Ret (- EFAULT) pos s' buff
                  else Ret count (pos + count) s' buff)"

text \<open>\<open>pcd_open\<close> and \<open>pcd_release\<close> log a message and return 0.\<close>

definition pcd_open :: "pcd_state \<Rightarrow> nat \<Rightarrow> nat \<Rightarrow> 32 word \<times> pcd_state" where
  "pcd_open s inode filp = (0, s)"

definition pcd_release :: "pcd_state \<Rightarrow> nat \<Rightarrow> nat \<Rightarrow> 32 word \<times> pcd_state" where
  "pcd_release s inode filp = (0, s)"

subsection \<open>The state after module load\<close>

text \<open>
  \<open>device_buffer\<close> is a global without an initialiser, so C fills it with zero bytes.
  The position of a freshly opened \<open>struct file\<close> is 0.
\<close>

definition initial_state :: pcd_state where
  "initial_state = \<lparr>device_buffer = replicate 512 0, files = (\<lambda>filp. \<lparr>f_pos = 0\<rparr>)\<rparr>"

subsection \<open>Reference definitions for the statements\<close>

text \<open>
  The candidate position of a seek as the specification words it: the offset for
  \<open>ABSOLUTE\<close>, the current position plus the offset for \<open>RELATIVE\<close>, the capacity plus
  the offset for \<open>FROM_END\<close>, and no candidate for any other mode.
\<close>

definition seek_candidate :: "loff_t \<Rightarrow> loff_t \<Rightarrow> 32 word \<Rightarrow> loff_t option" where
  "seek_candidate current offset mode =
     (if mode = SEEK_SET then Some offset
      else if mode = SEEK_CUR then Some (current + offset)
      else if mode = SEEK_END then Some (DEV_MEM_SIZE + offset)
      else None)"

text \<open>
  A caller that invokes \<open>pcd_release\<close> on the same \<open>filp\<close> \<open>n\<close> times in a row, collecting
  the return values.
\<close>

fun release_times :: "nat \<Rightarrow> pcd_state \<Rightarrow> nat \<Rightarrow> nat \<Rightarrow> 32 word list \<times> pcd_state" where
  "release_times 0 s inode filp = ([], s)"
| "release_times (Suc n) s inode filp =
     (case pcd_release s inode filp of
        (r, s') \<Rightarrow> (case release_times n s' inode filp of (rs, s'') \<Rightarrow> (r # rs, s'')))"

section \<open>Arithmetic of positions and counts\<close>

text \<open>A signed 64-bit value in terms of the unsigned one.\<close>

lemma sint64: "sint (w::64 word) = (if uint w < 2^63 then uint w else uint w - 2^64)"
proof -
  have b: "0 \<le> uint w" "uint w < 2^64" using uint_lt2p[of w] by simp_all
  have "sint w = take_bit 64 (uint w + 2^63) - 2^63"
    by (simp add: sint_uint signed_take_bit_eq_take_bit_shift)
  also have "\<dots> = (uint w + 2^63) mod 2^64 - 2^63"
    by (simp add: take_bit_eq_mod)
  also have "\<dots> = (if uint w < 2^63 then uint w else uint w - 2^64)"
  proof (cases "uint w < 2^63")
    case True
    then have "(uint w + 2^63) mod 2^64 = uint w + 2^63" using b by simp
    then show ?thesis using True by simp
  next
    case False
    then have "(uint w + 2^63) mod 2^64 = uint w + 2^63 - 2^64" using b
      by (simp add: mod_pos_geq)
    then show ?thesis using False by simp
  qed
  finally show ?thesis .
qed

text \<open>The value \<open>-1\<close> stored in a \<open>size_t\<close>.\<close>

lemma uint_max64: "uint (- 1 :: 64 word) = 18446744073709551615"
  by (simp add: unsigned_minus_1_eq_mask mask_eq_exp_minus_1)

lemma unat_max64: "unat (- 1 :: 64 word) = 18446744073709551615"
  by (simp add: unsigned_minus_1_eq_mask mask_eq_exp_minus_1)

lemma pos_ok_iff: "pos_ok p \<longleftrightarrow> p \<le> DEV_MEM_SIZE"
  using uint_lt2p[of p]
  unfolding pos_ok_def DEV_MEM_SIZE_def word_le_def
  by (auto simp add: sint64 split: if_splits)

lemma pos_ok_unat: "pos_ok p \<Longrightarrow> unat p \<le> 512"
  unfolding pos_ok_iff DEV_MEM_SIZE_def word_le_nat_alt by simp

lemma pos_ok_sint: "pos_ok p \<Longrightarrow> sint p = uint p"
  using uint_lt2p[of p]
  unfolding pos_ok_def DEV_MEM_SIZE_def
  by (auto simp add: sint64 split: if_splits)

lemma unat_add64:
  "unat x + unat y < 2 ^ 64 \<Longrightarrow> unat (x + y) = unat x + unat (y :: 64 word)"
  using unat_add_lem[of x y] by simp

lemma effective_count_unat:
  assumes "pos_ok p" "unat p + unat c < 2 ^ 64"
  shows "unat (effective_count p c) = min (unat c) (512 - unat p)"
proof -
  have p: "p \<le> 512" using assms(1) by (simp add: pos_ok_iff DEV_MEM_SIZE_def)
  have s: "unat (p + c) = unat p + unat c" by (rule unat_add64[OF assms(2)])
  have d: "unat (512 - p) = 512 - unat p" using p by (simp add: unat_sub)
  have g: "p + c > 512 \<longleftrightarrow> unat p + unat c > 512"
    by (simp add: word_less_nat_alt s)
  show ?thesis
    unfolding effective_count_def DEV_MEM_SIZE_def using g d pos_ok_unat[OF assms(1)]
    by auto
qed

lemma effective_count_uint:
  assumes "pos_ok p" "unat p + unat c < 2 ^ 64"
  shows "uint (effective_count p c) = int (min (unat c) (512 - unat p))"
  using effective_count_unat[OF assms] by (simp only: uint_nat)

lemma in_buffer_effective:
  assumes "pos_ok p" "unat p + unat c < 2 ^ 64"
  shows "in_buffer p (effective_count p c)"
proof -
  have a: "uint p = int (unat p)" by (simp only: uint_nat)
  have b: "unat p \<le> 512" by (rule pos_ok_unat[OF assms(1)])
  have "uint p + int (min (unat c) (512 - unat p)) \<le> 512"
    unfolding a using b by linarith
  then show ?thesis
    using pos_ok_sint[OF assms(1)] effective_count_uint[OF assms]
    by (simp add: in_buffer_def DEV_MEM_SIZE_def)
qed

lemma advance_unat:
  assumes "pos_ok p" "unat p + unat c < 2 ^ 64"
  shows "unat (p + effective_count p c) = unat p + min (unat c) (512 - unat p)"
proof -
  have b: "unat p \<le> 512" by (rule pos_ok_unat[OF assms(1)])
  have "unat p + min (unat c) (512 - unat p) \<le> 512" using b by linarith
  then have "unat p + unat (effective_count p c) < 2 ^ 64"
    unfolding effective_count_unat[OF assms] by simp
  then have "unat (p + effective_count p c) = unat p + unat (effective_count p c)"
    by (rule unat_add64)
  then show ?thesis unfolding effective_count_unat[OF assms] .
qed

lemma advance_pos_ok:
  assumes "pos_ok p" "unat p + unat c < 2 ^ 64"
  shows "pos_ok (p + effective_count p c)"
proof -
  have b: "unat p \<le> 512" by (rule pos_ok_unat[OF assms(1)])
  have "unat p + min (unat c) (512 - unat p) \<le> 512" using b by linarith
  then have "unat (p + effective_count p c) \<le> 512"
    unfolding advance_unat[OF assms] .
  then show ?thesis
    by (simp add: pos_ok_iff DEV_MEM_SIZE_def word_le_nat_alt)
qed

lemma in_buffer_unat:
  assumes "in_buffer p n"
  shows "unat p + unat n \<le> 512"
proof -
  define a where "a = uint p"
  have ba: "0 \<le> a" "a < 2 ^ 64" using uint_lt2p[of p] by (simp_all add: a_def)
  have sp: "sint p = (if a < 2 ^ 63 then a else a - 2 ^ 64)"
    by (simp only: sint64 a_def)
  have "0 \<le> sint p" "sint p + uint n \<le> 512"
    using assms by (simp_all add: in_buffer_def DEV_MEM_SIZE_def)
  then have "a + uint n \<le> 512"
    unfolding sp using ba by (simp split: if_splits)
  then have "int (unat p) + int (unat n) \<le> 512"
    by (simp add: a_def)
  then show ?thesis by linarith
qed

lemma in_buffer_check_copy_size:
  assumes "in_buffer p n"
  shows "check_copy_size (unat n)"
  using in_buffer_unat[OF assms] by (simp add: check_copy_size_def INT_MAX_def)

section \<open>The copy primitives\<close>

lemma copy_to_user_ok:
  "n \<le> length dst \<Longrightarrow> copy_to_user dst src n = (0, take n src @ drop n dst)"
  by (simp add: copy_to_user_def Let_def min_def)

lemma copy_to_user_fault:
  "length dst < n \<Longrightarrow> fst (copy_to_user dst src n) \<noteq> 0"
  by (simp add: copy_to_user_def Let_def min_def)

lemma copy_from_user_ok:
  "n \<le> length src \<Longrightarrow> copy_from_user src n = (0, take n src)"
  by (simp add: copy_from_user_def Let_def min_def)

lemma copy_from_user_fault:
  "length src < n \<Longrightarrow> fst (copy_from_user src n) \<noteq> 0"
  by (simp add: copy_from_user_def Let_def min_def)

lemma copy_from_user_length: "length (snd (copy_from_user src n)) = n"
  by (simp add: copy_from_user_def Let_def min_def)


section \<open>Calls with the position and the count in range\<close>

text \<open>
  What \<open>pcd_read\<close> and \<open>pcd_write\<close> do when the position is within \<open>[0, 512]\<close>, the sum of
  position and count does not wrap and the caller's buffer is accessible.
\<close>

lemma pcd_read_in_range:
  assumes "wf_state s" and "pos_ok p" and "unat p + unat c < 2 ^ 64"
    and "min (unat c) (512 - unat p) \<le> length buff"
  shows "pcd_read s filp buff c p =
           Ret (effective_count p c) (p + effective_count p c) s
             (take (min (unat c) (512 - unat p)) (drop (unat p) (device_buffer s))
                @ drop (min (unat c) (512 - unat p)) buff)"
proof -
  let ?n = "min (unat c) (512 - unat p)"
  have n: "unat (effective_count p c) = ?n"
    by (rule effective_count_unat[OF assms(2,3)])
  have inb: "in_buffer p (effective_count p c)"
    by (rule in_buffer_effective[OF assms(2,3)])
  show ?thesis
  proof (cases "effective_count p c = 0")
    case True
    then have "?n = 0" using n by simp
    then show ?thesis using True by (simp add: pcd_read_def Let_def)
  next
    case False
    then show ?thesis
      using inb in_buffer_check_copy_size[OF inb] assms(4)
      by (simp add: pcd_read_def Let_def n copy_to_user_ok)
  qed
qed

lemma pcd_write_in_range:
  assumes "pos_ok p" and "unat p + unat c < 2 ^ 64" and "unat c \<le> length buff"
  shows "pcd_write s filp buff c p =
           (if min (unat c) (512 - unat p) = 0 then Ret (- ENOSPC) p s buff
            else Ret (effective_count p c) (p + effective_count p c)
                   (s\<lparr>device_buffer :=
                        take (unat p) (device_buffer s)
                          @ take (min (unat c) (512 - unat p)) buff
                          @ drop (unat p + min (unat c) (512 - unat p)) (device_buffer s)\<rparr>)
                   buff)"
proof -
  let ?n = "min (unat c) (512 - unat p)"
  have n: "unat (effective_count p c) = ?n"
    by (rule effective_count_unat[OF assms(1,2)])
  have inb: "in_buffer p (effective_count p c)"
    by (rule in_buffer_effective[OF assms(1,2)])
  have src: "?n \<le> length buff" using assms(3) by simp
  show ?thesis
  proof (cases "effective_count p c = 0")
    case True
    then have "?n = 0" using n by simp
    then show ?thesis using True by (simp add: pcd_write_def Let_def)
  next
    case False
    then have "?n \<noteq> 0" using n by (simp add: unat_eq_zero[symmetric] del: unat_eq_zero)
    then show ?thesis
      using False inb in_buffer_check_copy_size[OF inb] src
      by (simp add: pcd_write_def Let_def n copy_from_user_ok)
  qed
qed

section \<open>Reading\<close>

text \<open>
  Claim C1, as the code has it. For a position \<open>p\<close> with \<open>0 \<le> p \<le> 512\<close> and a count \<open>c\<close>
  whose sum with \<open>p\<close> stays below \<open>2 ^ 64\<close>, and a caller buffer that accepts
  \<open>n = min c (512 - p)\<close> bytes, \<open>pcd_read\<close> returns \<open>n\<close>, stores the bytes
  \<open>device_buffer[p .. p + n)\<close> at the start of the caller's buffer, advances the position by
  \<open>n\<close> (which keeps it within \<open>[0, 512]\<close>) and leaves the driver state as it was. With \<open>n = 0\<close>
  this is the return value 0 at the end of the region: a success, not an error.
\<close>

theorem pcd_read_short_read:
  assumes "wf_state s" and "pos_ok p" and "unat p + unat c < 2 ^ 64"
    and "min (unat c) (512 - unat p) \<le> length buff"
  shows "pcd_read s filp buff c p =
           Ret (effective_count p c) (p + effective_count p c) s
             (take (min (unat c) (512 - unat p)) (drop (unat p) (device_buffer s))
                @ drop (min (unat c) (512 - unat p)) buff)
         \<and> unat (effective_count p c) = min (unat c) (512 - unat p)
         \<and> unat (p + effective_count p c) = unat p + min (unat c) (512 - unat p)
         \<and> pos_ok (p + effective_count p c)
         \<and> length (take (min (unat c) (512 - unat p)) (drop (unat p) (device_buffer s)))
             = min (unat c) (512 - unat p)"
proof -
  let ?n = "min (unat c) (512 - unat p)"
  have n: "unat (effective_count p c) = ?n"
    by (rule effective_count_unat[OF assms(2,3)])
  have len: "length (take ?n (drop (unat p) (device_buffer s))) = ?n"
    using assms(1) pos_ok_unat[OF assms(2)] by (simp add: wf_state_def DEV_MEM_SIZE_def)
  show ?thesis
    using pcd_read_in_range[OF assms, of filp] n len
      advance_unat[OF assms(2,3)] advance_pos_ok[OF assms(2,3)]
    by simp
qed

text \<open>The theorem at position 510 with count 5 and a caller buffer of three bytes.\<close>

theorem pcd_read_short_read_witness:
  "wf_state initial_state \<and> pos_ok 510 \<and> unat (510 :: 64 word) + unat (5 :: 64 word) < 2 ^ 64
   \<and> min (unat (5 :: 64 word)) (512 - unat (510 :: 64 word)) \<le> length [1, 2, 3 :: byte]
   \<and> pcd_read initial_state 0 [1, 2, 3] 5 510 = Ret 2 512 initial_state [0, 0, 3]"
proof -
  have two: "replicate 2 (0 :: byte) = [0, 0]"
    by (simp add: numeral_2_eq_2)
  have h1: "wf_state initial_state"
    by (simp add: wf_state_def initial_state_def DEV_MEM_SIZE_def)
  have h2: "pos_ok 510"
    by (simp add: pos_ok_def DEV_MEM_SIZE_def)
  have h3: "unat (510 :: 64 word) + unat (5 :: 64 word) < 2 ^ 64"
    by simp
  have h4: "min (unat (5 :: 64 word)) (512 - unat (510 :: 64 word)) \<le> length [1, 2, 3 :: byte]"
    by simp
  have "device_buffer initial_state = replicate 512 0"
    by (simp add: initial_state_def)
  then show ?thesis
    using pcd_read_short_read[OF h1 h2 h3 h4, of 0] h1 h2 h3 h4
    by (simp add: effective_count_def DEV_MEM_SIZE_def two)
qed


text \<open>
  Claim C1 as stated does not hold for every call: when the caller's buffer cannot be
  written, \<open>copy_to_user\<close> reports uncopied bytes and \<open>pcd_read\<close> returns \<open>-EFAULT\<close>, although
  the position 0 and the count 5 are in range.
\<close>

theorem pcd_read_fault_counterexample:
  "wf_state initial_state \<and> pos_ok 0
   \<and> pcd_read initial_state 0 [] 5 0 = Ret (- EFAULT) 0 initial_state []
   \<and> sint (- EFAULT) = - 14"
  by (simp add: wf_state_def initial_state_def pos_ok_def DEV_MEM_SIZE_def effective_count_def
      pcd_read_def in_buffer_def copy_to_user_def Let_def EFAULT_def check_copy_size_def
      INT_MAX_def)

text \<open>
  Claim C6 asks that a read at a position above 512 treats the available space as 0 and
  returns 0 without touching the buffer. The code computes \<open>count = DEV_MEM_SIZE - *f_pos\<close>
  in the unsigned type \<open>size_t\<close>: at position 513 with count 1 this is \<open>2 ^ 64 - 1\<close>, the test
  \<open>count <= 0\<close> does not fire, and the call goes on to \<open>copy_to_user\<close> with that size. The
  primitive refuses it, and the call returns \<open>-EFAULT\<close>: an error, not the 0 of the claim.
\<close>

theorem pcd_read_past_end:
  "sint (513 :: loff_t) = 513 \<and> effective_count 513 1 = 18446744073709551615
   \<and> pcd_read initial_state filp buff 1 513 = Ret (- EFAULT) 513 initial_state buff
   \<and> sint (- EFAULT) = - 14"
  by (simp add: pcd_read_def effective_count_def DEV_MEM_SIZE_def Let_def check_copy_size_def
      INT_MAX_def unat_max64 EFAULT_def)

text \<open>
  The same for every position above 512 and every count: the count that reaches the copy
  is above \<open>INT_MAX\<close>, and the read returns \<open>-EFAULT\<close>.
\<close>

lemma count_above_capacity:
  assumes "512 < sint p"
  shows "2 ^ 63 < uint (effective_count p c)"
proof -
  define a where "a = uint p"
  define b where "b = uint c"
  have ba: "0 \<le> a" "a < 2 ^ 64" and bb: "0 \<le> b" "b < 2 ^ 64"
    using uint_lt2p[of p] uint_lt2p[of c] by (simp_all add: a_def b_def)
  have sp: "sint p = (if a < 2 ^ 63 then a else a - 2 ^ 64)"
    by (simp only: sint64 a_def)
  have big: "512 < a" "a < 2 ^ 63" using assms ba unfolding sp by (simp_all split: if_splits)
  have sum: "uint (p + c) = (if a + b < 2 ^ 64 then a + b else a + b - 2 ^ 64)"
    using uint_plus_if'[of p c] by (simp add: a_def b_def)
  have dif: "uint (512 - p) = 512 - a + 2 ^ 64"
    using uint_sub_if'[of 512 p] big by (simp add: a_def)
  show ?thesis
  proof (cases "p + c > DEV_MEM_SIZE")
    case True
    then have "effective_count p c = 512 - p"
      by (simp add: effective_count_def DEV_MEM_SIZE_def)
    then show ?thesis using dif big by simp
  next
    case False
    then have e: "effective_count p c = c" by (simp add: effective_count_def)
    have "uint (p + c) \<le> 512"
      using False by (simp add: DEV_MEM_SIZE_def word_less_def)
    then have "2 ^ 63 < b"
      unfolding sum using big ba bb by (simp split: if_splits)
    then show ?thesis using e by (simp add: b_def)
  qed
qed

lemma pcd_read_above_capacity:
  assumes "512 < sint p"
  shows "pcd_read s filp buff c p = Ret (- EFAULT) p s buff"
proof -
  have big: "2 ^ 63 < uint (effective_count p c)"
    by (rule count_above_capacity[OF assms])
  then have nz: "effective_count p c \<noteq> 0" by auto
  have "int (unat (effective_count p c)) = uint (effective_count p c)"
    by simp
  moreover have "9223372036854775808 < uint (effective_count p c)"
    using big by simp
  ultimately have "\<not> unat (effective_count p c) \<le> 2147483647"
    by linarith
  then have "\<not> check_copy_size (unat (effective_count p c))"
    by (simp add: check_copy_size_def INT_MAX_def)
  then show ?thesis using nz by (simp add: pcd_read_def Let_def)
qed

section \<open>Writing\<close>

text \<open>
  Claim C2. Let \<open>B\<close> be the source bytes and \<open>p\<close> a position with \<open>0 \<le> p \<le> 512\<close>, with
  \<open>p + length B\<close> below \<open>2 ^ 64\<close>; this holds for every length up to \<open>MAX_RW_COUNT\<close>
  (2147479552), the largest count the kernel hands to a driver. With
  \<open>n = min (length B) (512 - p)\<close>, a \<open>pcd_write\<close> of \<open>B\<close> at \<open>p\<close> returns \<open>n\<close>, stores the first
  \<open>n\<close> bytes of \<open>B\<close> at \<open>device_buffer[p .. p + n)\<close> and advances the position by \<open>n\<close> when
  \<open>n > 0\<close>; it returns \<open>-ENOSPC\<close> and changes nothing when \<open>n = 0\<close>, and it returns \<open>-ENOSPC\<close>
  in that case only. Writing the empty sequence gives \<open>n = 0\<close> at every position.
\<close>

theorem pcd_write_short_write:
  assumes "pos_ok p" and "unat p + length B < 2 ^ 64"
  shows "pcd_write s filp B (word_of_nat (length B)) p =
           (if min (length B) (512 - unat p) = 0 then Ret (- ENOSPC) p s B
            else Ret (word_of_nat (min (length B) (512 - unat p)))
                   (p + word_of_nat (min (length B) (512 - unat p)))
                   (s\<lparr>device_buffer :=
                        take (unat p) (device_buffer s)
                          @ take (min (length B) (512 - unat p)) B
                          @ drop (unat p + min (length B) (512 - unat p)) (device_buffer s)\<rparr>)
                   B)
         \<and> unat (word_of_nat (min (length B) (512 - unat p)) :: size_t)
             = min (length B) (512 - unat p)
         \<and> unat (p + word_of_nat (min (length B) (512 - unat p)))
             = unat p + min (length B) (512 - unat p)
         \<and> pos_ok (p + word_of_nat (min (length B) (512 - unat p)))
         \<and> ((retval (pcd_write s filp B (word_of_nat (length B)) p) = - ENOSPC)
              = (min (length B) (512 - unat p) = 0))"
proof -
  let ?c = "word_of_nat (length B) :: size_t"
  let ?n = "min (length B) (512 - unat p)"
  have lb: "length B < 2 ^ 64" using assms(2) by simp
  have u: "unat ?c = length B"
    using lb by (simp add: unat_of_nat)
  have nw: "unat p + unat ?c < 2 ^ 64" using assms(2) u by simp
  have n: "unat (effective_count p ?c) = ?n"
    using effective_count_unat[OF assms(1) nw] u by simp
  have "word_of_nat (unat (effective_count p ?c)) = effective_count p ?c"
    by simp
  then have ec: "effective_count p ?c = word_of_nat ?n"
    unfolding n by simp
  have un: "unat (word_of_nat ?n :: size_t) = ?n"
    using n ec by simp
  have src: "unat ?c \<le> length B" using u by simp
  have w: "pcd_write s filp B ?c p =
           (if ?n = 0 then Ret (- ENOSPC) p s B
            else Ret (word_of_nat ?n) (p + word_of_nat ?n)
                   (s\<lparr>device_buffer :=
                        take (unat p) (device_buffer s) @ take ?n B
                          @ drop (unat p + ?n) (device_buffer s)\<rparr>)
                   B)"
    using pcd_write_in_range[OF assms(1) nw src, of s filp] unfolding u ec .
  have adv: "unat (p + word_of_nat ?n) = unat p + ?n"
    using advance_unat[OF assms(1) nw] u ec by simp
  have inv: "pos_ok (p + word_of_nat ?n)"
    using advance_pos_ok[OF assms(1) nw] ec by simp
  have ne: "(word_of_nat ?n :: size_t) \<noteq> - ENOSPC"
  proof
    assume e: "(word_of_nat ?n :: size_t) = - ENOSPC"
    define m where "m = ?n"
    have small: "m \<le> 512" by (simp add: m_def)
    have "uint (word_of_nat m :: size_t) = int m"
      using un by (simp only: uint_nat m_def)
    then have "0 \<le> sint (word_of_nat m :: size_t)"
      using small by (simp add: sint64)
    moreover have "sint (- ENOSPC) = - 28"
      by (simp add: ENOSPC_def)
    ultimately show False using e by (simp add: m_def)
  qed
  have iff: "(retval (pcd_write s filp B ?c p) = - ENOSPC) = (?n = 0)"
    unfolding w using ne by simp
  show ?thesis
    using w un adv inv iff by (intro conjI)
qed

text \<open>
  The theorem for a source of five bytes at position 510: two bytes fit, and the position
  becomes 512.
\<close>

theorem pcd_write_short_write_witness:
  "pos_ok 510 \<and> unat (510 :: loff_t) + length [1, 2, 3, 4, 5 :: byte] < 2 ^ 64
   \<and> retval (pcd_write initial_state 0 [1, 2, 3, 4, 5] 5 510) = 2
   \<and> r_pos (pcd_write initial_state 0 [1, 2, 3, 4, 5] 5 510) = 512
   \<and> retval (pcd_write initial_state 0 [1, 2, 3, 4, 5] 5 510) \<noteq> - ENOSPC"
proof -
  have h1: "pos_ok 510"
    by (simp add: pos_ok_def DEV_MEM_SIZE_def)
  have h2: "unat (510 :: loff_t) + length [1, 2, 3, 4, 5 :: byte] < 2 ^ 64"
    by simp
  show ?thesis
    using pcd_write_short_write[OF h1 h2, of initial_state 0] h1 h2
    by (simp add: ENOSPC_def)
qed

section \<open>Seeking\<close>

text \<open>
  Claim C3. For every current position and every offset, \<open>pcd_lseek\<close> takes the candidate
  position of the mode (\<open>seek_candidate\<close>: the offset, the current position plus the
  offset, or 512 plus the offset). For any other mode, and for a candidate below 0 or
  above 512, it returns \<open>-EINVAL\<close> and the state, hence the position, is unchanged.
  Otherwise it stores the candidate as the position of this \<open>filp\<close> and returns it.
\<close>

theorem pcd_lseek_candidate:
  "pcd_lseek s filp off whence =
     (case seek_candidate (f_pos (files s filp)) off whence of
        None \<Rightarrow> (- EINVAL, s)
      | Some c \<Rightarrow>
          if sint c < 0 \<or> 512 < sint c then (- EINVAL, s)
          else (c, s\<lparr>files := (files s)(filp := (files s filp)\<lparr>f_pos := c\<rparr>)\<rparr>))"
  by (simp add: pcd_lseek_def seek_candidate_def Let_def DEV_MEM_SIZE_def
      SEEK_SET_def SEEK_CUR_def SEEK_END_def)

text \<open>
  The candidate is a 64-bit sum. From a position that is not negative (also from 512, the
  base of \<open>SEEK_END\<close>) the bounds test decides as the unbounded sum would, and an accepted
  candidate is the unbounded sum.
\<close>

lemma lseek_sum_no_wrap:
  fixes p off :: "64 word"
  assumes "0 \<le> sint p"
  shows "(sint (p + off) < 0 \<or> 512 < sint (p + off)) \<longleftrightarrow>
         (sint p + sint off < 0 \<or> 512 < sint p + sint off)"
    and "\<not> (sint (p + off) < 0 \<or> 512 < sint (p + off)) \<Longrightarrow> sint (p + off) = sint p + sint off"
proof -
  define a where "a = uint p"
  define b where "b = uint off"
  define c where "c = uint (p + off)"
  have ba: "0 \<le> a" "a < 2 ^ 64" and bb: "0 \<le> b" "b < 2 ^ 64"
    using uint_lt2p[of p] uint_lt2p[of off] by (simp_all add: a_def b_def)
  have sp: "sint p = (if a < 2 ^ 63 then a else a - 2 ^ 64)"
    and so: "sint off = (if b < 2 ^ 63 then b else b - 2 ^ 64)"
    and sc: "sint (p + off) = (if c < 2 ^ 63 then c else c - 2 ^ 64)"
    by (simp_all only: sint64 a_def b_def c_def)
  have sum: "c = (if a + b < 2 ^ 64 then a + b else a + b - 2 ^ 64)"
    using uint_plus_if'[of p off] by (simp add: a_def b_def c_def)
  have pa: "a < 2 ^ 63"
    using assms ba unfolding sp by (simp split: if_splits)
  show "(sint (p + off) < 0 \<or> 512 < sint (p + off)) \<longleftrightarrow>
         (sint p + sint off < 0 \<or> 512 < sint p + sint off)"
    unfolding sp so sc sum using ba bb pa by (simp split: if_splits)
  show "\<not> (sint (p + off) < 0 \<or> 512 < sint (p + off)) \<Longrightarrow> sint (p + off) = sint p + sint off"
    unfolding sp so sc sum using ba bb pa by (simp split: if_splits)
qed

text \<open>
  Claim C8. A seek with offset 0 in mode \<open>SEEK_END\<close> succeeds from every current position
  and gives the position 512.
\<close>

theorem pcd_lseek_end_zero:
  "pcd_lseek s filp 0 SEEK_END = (512, s\<lparr>files := (files s)(filp := (files s filp)\<lparr>f_pos := 512\<rparr>)\<rparr>)
   \<and> sint (fst (pcd_lseek s filp 0 SEEK_END)) = 512
   \<and> f_pos (files (snd (pcd_lseek s filp 0 SEEK_END)) filp) = DEV_MEM_SIZE"
  by (simp add: pcd_lseek_def Let_def DEV_MEM_SIZE_def SEEK_SET_def SEEK_CUR_def SEEK_END_def)

section \<open>The position invariant and the bounds of the buffer\<close>

text \<open>
  Whenever a call returns, it leaves a position within \<open>[0, 512]\<close> if it was given one, and
  \<open>pcd_lseek\<close> changes the position of its own \<open>filp\<close> only.
\<close>

lemma pcd_read_keeps_invariant:
  assumes "pcd_read s filp buff c p = Ret r p' s' u" and "pos_ok p"
  shows "pos_ok p'"
proof (cases "p' = p")
  case True
  then show ?thesis using assms(2) by simp
next
  case False
  then have e: "p' = p + effective_count p c" and inb: "in_buffer p (effective_count p c)"
    using assms(1) by (auto simp add: pcd_read_def Let_def split: if_splits prod.splits)
  have le: "unat p + unat (effective_count p c) \<le> 512" by (rule in_buffer_unat[OF inb])
  then have "unat p + unat (effective_count p c) < 2 ^ 64" by simp
  then have "unat p' = unat p + unat (effective_count p c)"
    unfolding e by (rule unat_add64)
  then show ?thesis using le by (simp add: pos_ok_iff DEV_MEM_SIZE_def word_le_nat_alt)
qed

lemma pcd_write_keeps_invariant:
  assumes "pcd_write s filp buff c p = Ret r p' s' u" and "pos_ok p"
  shows "pos_ok p'"
proof (cases "p' = p")
  case True
  then show ?thesis using assms(2) by simp
next
  case False
  then have e: "p' = p + effective_count p c" and inb: "in_buffer p (effective_count p c)"
    using assms(1) by (auto simp add: pcd_write_def Let_def split: if_splits prod.splits)
  have le: "unat p + unat (effective_count p c) \<le> 512" by (rule in_buffer_unat[OF inb])
  then have "unat p + unat (effective_count p c) < 2 ^ 64" by simp
  then have "unat p' = unat p + unat (effective_count p c)"
    unfolding e by (rule unat_add64)
  then show ?thesis using le by (simp add: pos_ok_iff DEV_MEM_SIZE_def word_le_nat_alt)
qed

lemma pcd_lseek_keeps_invariant:
  assumes "pos_ok (f_pos (files s g))"
  shows "pos_ok (f_pos (files (snd (pcd_lseek s filp off whence)) g))"
  using assms by (auto simp add: pcd_lseek_def Let_def pos_ok_def)

lemma pcd_lseek_other_files:
  "g \<noteq> filp \<Longrightarrow> files (snd (pcd_lseek s filp off whence)) g = files s g"
  by (simp add: pcd_lseek_def Let_def)

text \<open>
  From a position that is not negative, the count that reaches the copy primitive is 0
  (no copy is made), above \<open>INT_MAX\<close> (the primitive refuses it and touches nothing), or
  describes a range inside the array. So such a call never reaches outside the buffer.
\<close>

lemma no_overrun:
  assumes "0 \<le> sint p"
  shows "effective_count p c = 0 \<or> INT_MAX < unat (effective_count p c)
         \<or> in_buffer p (effective_count p c)"
proof (cases "512 < sint p")
  case True
  have "int (unat (effective_count p c)) = uint (effective_count p c)"
    by simp
  moreover have "9223372036854775808 < uint (effective_count p c)"
    using count_above_capacity[OF True, of c] by simp
  ultimately have "2147483647 < unat (effective_count p c)"
    by linarith
  then show ?thesis by (simp add: INT_MAX_def)
next
  case False
  then have ok: "pos_ok p" using assms by (simp add: pos_ok_def DEV_MEM_SIZE_def)
  show ?thesis
  proof (cases "unat p + unat c < 2 ^ 64")
    case True
    then show ?thesis using in_buffer_effective[OF ok] by simp
  next
    case wrap: False
    define a where "a = uint p"
    define b where "b = uint c"
    have ba: "0 \<le> a" "a \<le> 512"
      using ok pos_ok_sint[OF ok] by (simp_all add: a_def pos_ok_def DEV_MEM_SIZE_def)
    have bb: "0 \<le> b" "b < 2 ^ 64"
      using uint_lt2p[of c] by (simp_all add: b_def)
    have "int (unat p) = a" "int (unat c) = b" by (simp_all add: a_def b_def)
    moreover have "18446744073709551616 \<le> unat p + unat c"
      using wrap by simp
    ultimately have ab: "18446744073709551616 \<le> a + b"
      by linarith
    have sum: "uint (p + c) = (if a + b < 2 ^ 64 then a + b else a + b - 2 ^ 64)"
      using uint_plus_if'[of p c] by (simp add: a_def b_def)
    have "uint (p + c) \<le> 512"
      unfolding sum using ab ba bb by simp
    then have "\<not> p + c > DEV_MEM_SIZE"
      by (simp add: DEV_MEM_SIZE_def word_less_def)
    then have e: "effective_count p c = c" by (simp add: effective_count_def)
    have "2147483647 < b" using ab ba by linarith
    then have "2147483647 < int (unat c)" by (simp add: b_def)
    then have "2147483647 < unat c" by linarith
    then show ?thesis using e by (simp add: INT_MAX_def)
  qed
qed

lemma pcd_read_no_overrun:
  assumes "0 \<le> sint p"
  shows "pcd_read s filp buff c p \<noteq> BufferOverrun"
  using no_overrun[OF assms, of c]
  by (auto simp add: pcd_read_def Let_def check_copy_size_def split: prod.splits)

lemma pcd_write_no_overrun:
  assumes "0 \<le> sint p"
  shows "pcd_write s filp buff c p \<noteq> BufferOverrun"
  using no_overrun[OF assms, of c]
  by (auto simp add: pcd_write_def Let_def check_copy_size_def split: prod.splits)

lemma pcd_read_files:
  "pcd_read s filp buff c p = Ret r p' s' u \<Longrightarrow> files s' = files s"
  by (auto simp add: pcd_read_def Let_def split: if_splits prod.splits)

lemma pcd_write_files:
  "pcd_write s filp buff c p = Ret r p' s' u \<Longrightarrow> files s' = files s"
  by (auto simp add: pcd_write_def Let_def split: if_splits prod.splits)

text \<open>
  Claim C4. Let \<open>g\<close> be any open file whose position is within \<open>[0, 512]\<close>, and \<open>p\<close> the
  position within \<open>[0, 512]\<close> that a read or write is given. \<open>pcd_lseek\<close> on any \<open>filp\<close> leaves
  the position of \<open>g\<close> within \<open>[0, 512]\<close>; \<open>pcd_open\<close> and \<open>pcd_release\<close> change nothing;
  \<open>pcd_read\<close> and \<open>pcd_write\<close> leave a position within \<open>[0, 512]\<close> and change the position of
  no file in the store. Neither reaches outside the buffer: the copy primitive is not
  called, refuses the size without touching memory, or is handed a range within the
  indices \<open>[0, 512)\<close>.
\<close>

theorem position_invariant_and_bounds:
  assumes "pos_ok p" and "pos_ok (f_pos (files s g))"
  shows "pos_ok (f_pos (files (snd (pcd_lseek s filp off whence)) g))
       \<and> snd (pcd_open s inode filp) = s
       \<and> snd (pcd_release s inode filp) = s
       \<and> pcd_read s filp buff c p \<noteq> BufferOverrun
       \<and> pos_ok (r_pos (pcd_read s filp buff c p))
       \<and> files (r_state (pcd_read s filp buff c p)) = files s
       \<and> pcd_write s filp buff c p \<noteq> BufferOverrun
       \<and> pos_ok (r_pos (pcd_write s filp buff c p))
       \<and> files (r_state (pcd_write s filp buff c p)) = files s
       \<and> (effective_count p c = 0 \<or> INT_MAX < unat (effective_count p c)
            \<or> in_buffer p (effective_count p c))"
proof -
  have nn: "0 \<le> sint p" using assms(1) by (simp add: pos_ok_def)
  obtain r p' s' u where rd: "pcd_read s filp buff c p = Ret r p' s' u"
    using pcd_read_no_overrun[OF nn, of s filp buff c]
    by (cases "pcd_read s filp buff c p") auto
  obtain r2 p2 s2 u2 where wr: "pcd_write s filp buff c p = Ret r2 p2 s2 u2"
    using pcd_write_no_overrun[OF nn, of s filp buff c]
    by (cases "pcd_write s filp buff c p") auto
  have a: "pos_ok (f_pos (files (snd (pcd_lseek s filp off whence)) g))"
    by (rule pcd_lseek_keeps_invariant[OF assms(2)])
  have b: "snd (pcd_open s inode filp) = s" "snd (pcd_release s inode filp) = s"
    by (simp_all add: pcd_open_def pcd_release_def)
  have c1: "pos_ok (r_pos (pcd_read s filp buff c p))"
    using pcd_read_keeps_invariant[OF rd assms(1)] rd by simp
  have c2: "files (r_state (pcd_read s filp buff c p)) = files s"
    using pcd_read_files[OF rd] rd by simp
  have d1: "pos_ok (r_pos (pcd_write s filp buff c p))"
    using pcd_write_keeps_invariant[OF wr assms(1)] wr by simp
  have d2: "files (r_state (pcd_write s filp buff c p)) = files s"
    using pcd_write_files[OF wr] wr by simp
  show ?thesis
    using a b c1 c2 d1 d2 rd wr no_overrun[OF nn, of c] by simp
qed

text \<open>
  A seek to 7, and a read and a write of five bytes at position 510, on the state after
  module load.
\<close>

theorem position_invariant_and_bounds_witness:
  "pos_ok 510 \<and> pos_ok (f_pos (files initial_state 0))
   \<and> pos_ok (f_pos (files (snd (pcd_lseek initial_state 0 7 SEEK_SET)) 0))
   \<and> pcd_read initial_state 0 [1, 2, 3] 5 510 \<noteq> BufferOverrun
   \<and> pos_ok (r_pos (pcd_read initial_state 0 [1, 2, 3] 5 510))
   \<and> pcd_write initial_state 0 [1, 2, 3] 5 510 \<noteq> BufferOverrun
   \<and> pos_ok (r_pos (pcd_write initial_state 0 [1, 2, 3] 5 510))"
proof -
  have h1: "pos_ok 510"
    by (simp add: pos_ok_def DEV_MEM_SIZE_def)
  have h2: "pos_ok (f_pos (files initial_state 0))"
    by (simp add: pos_ok_def DEV_MEM_SIZE_def initial_state_def)
  show ?thesis
    using position_invariant_and_bounds[OF h1 h2, where filp = 0 and off = 7
        and whence = SEEK_SET and inode = 0 and buff = "[1, 2, 3]" and c = 5] h1 h2
    by blast
qed

section \<open>Writing, then reading\<close>

text \<open>
  Claim C5. Let \<open>B\<close> be a byte sequence of at most 512 bytes. After \<open>pcd_write\<close> of \<open>B\<close> at
  position 0 through some \<open>filp\<close>, a \<open>pcd_read\<close> of \<open>length B\<close> bytes at position 0, through
  the same or another \<open>filp'\<close>, into a buffer with room for them returns \<open>length B\<close> and
  stores exactly \<open>B\<close> at the start of that buffer.
\<close>

theorem write_read_round_trip:
  assumes "wf_state s" and "length B \<le> 512" and "length B \<le> length dst"
  shows "pcd_write s filp B (word_of_nat (length B)) 0 \<noteq> BufferOverrun
         \<and> pcd_read (r_state (pcd_write s filp B (word_of_nat (length B)) 0)) filp' dst
              (word_of_nat (length B)) 0
            = Ret (word_of_nat (length B)) (word_of_nat (length B))
                (r_state (pcd_write s filp B (word_of_nat (length B)) 0))
                (B @ drop (length B) dst)
         \<and> unat (word_of_nat (length B) :: size_t) = length B"
proof -
  let ?c = "word_of_nat (length B) :: size_t"
  have u: "unat ?c = length B"
    using assms(2) by (simp add: unat_of_nat)
  have p0: "pos_ok 0" by (simp add: pos_ok_def DEV_MEM_SIZE_def)
  have nw: "unat (0 :: loff_t) + unat ?c < 2 ^ 64" using u assms(2) by simp
  have m: "min (unat ?c) (512 - unat (0 :: loff_t)) = length B"
    using u assms(2) by simp
  have ec: "effective_count 0 ?c = ?c"
    using effective_count_unat[OF p0 nw] m u by (metis word_unat_eq_iff)
  have w: "pcd_write s filp B ?c 0 =
             (if length B = 0 then Ret (- ENOSPC) 0 s B
              else Ret ?c ?c (s\<lparr>device_buffer := B @ drop (length B) (device_buffer s)\<rparr>) B)"
    using pcd_write_in_range[OF p0 nw, of B s filp] u m ec by simp
  let ?s' = "r_state (pcd_write s filp B ?c 0)"
  have s': "device_buffer ?s' = B @ drop (length B) (device_buffer s)"
    using w by simp
  have wf: "wf_state ?s'"
    using assms(1,2) s' by (simp add: wf_state_def DEV_MEM_SIZE_def)
  have dst: "min (unat ?c) (512 - unat (0 :: loff_t)) \<le> length dst"
    using m assms(3) by simp
  have "pcd_read ?s' filp' dst ?c 0 = Ret ?c ?c ?s' (B @ drop (length B) dst)"
    using pcd_read_in_range[OF wf p0 nw dst, of filp'] m ec s' by simp
  then show ?thesis using w u by simp
qed

text \<open>The round trip of two bytes, written through one file and read through another.\<close>

theorem write_read_round_trip_witness:
  "wf_state initial_state \<and> length [72, 105 :: byte] \<le> 512
   \<and> length [72, 105 :: byte] \<le> length [1, 2, 3 :: byte]
   \<and> pcd_write initial_state 3 [72, 105] 2 0 \<noteq> BufferOverrun
   \<and> retval (pcd_read (r_state (pcd_write initial_state 3 [72, 105] 2 0)) 4 [1, 2, 3] 2 0) = 2
   \<and> r_user (pcd_read (r_state (pcd_write initial_state 3 [72, 105] 2 0)) 4 [1, 2, 3] 2 0)
       = [72, 105, 3]"
proof -
  have h1: "wf_state initial_state"
    by (simp add: wf_state_def initial_state_def DEV_MEM_SIZE_def)
  have h2: "length [72, 105 :: byte] \<le> 512" by simp
  have h3: "length [72, 105 :: byte] \<le> length [1, 2, 3 :: byte]" by simp
  show ?thesis
    using write_read_round_trip[OF h1 h2 h3, of 3 4] h1 by simp
qed

section \<open>Closing\<close>

text \<open>
  Claim C9. Any number of \<open>pcd_release\<close> calls on a \<open>filp\<close> return 0 each, and the state
  after them is the state before: the positions of all files and the buffer are unchanged.
\<close>

theorem pcd_release_repeated:
  "release_times n s inode filp = (replicate n 0, s)"
  by (induction n) (simp_all add: pcd_release_def)

section \<open>The footprint of the operations\<close>

lemma splice_nth:
  assumes "a + n \<le> length xs" and "length ys = n" and "i < a \<or> a + n \<le> i"
  shows "(take a xs @ ys @ drop (a + n) xs) ! i = xs ! i"
proof (cases "i < a")
  case True
  then show ?thesis using assms(1) by (simp add: nth_append)
next
  case False
  then have i: "a + n \<le> i" using assms(3) by simp
  have la: "length (take a xs) = a" using assms(1) by simp
  have "(take a xs @ ys @ drop (a + n) xs) ! i = (ys @ drop (a + n) xs) ! (i - a)"
    using i la by (simp add: nth_append)
  also have "\<dots> = drop (a + n) xs ! (i - a - n)"
  proof -
    have "\<not> i - a < length ys" using i assms(2) by linarith
    then show ?thesis using assms(2) by (simp add: nth_append)
  qed
  also have "\<dots> = xs ! i"
  proof -
    have "a + n + (i - a - n) = i" using i by linarith
    then show ?thesis using nth_drop[of "a + n" xs "i - a - n"] assms(1) by simp
  qed
  finally show ?thesis .
qed

lemma pcd_write_success:
  assumes "pcd_write s filp buff c p = Ret r p' s' u" and "0 < sint r"
  shows "r = effective_count p c \<and> in_buffer p r \<and> files s' = files s
         \<and> (\<exists>data. length data = unat r
              \<and> device_buffer s' =
                  take (unat p) (device_buffer s) @ data
                    @ drop (unat p + unat r) (device_buffer s))"
proof -
  have neg: "\<not> 0 < sint (- ENOSPC)" "\<not> 0 < sint (- EFAULT)"
    by (simp_all add: ENOSPC_def EFAULT_def)
  have len: "length (snd (copy_from_user buff (unat (effective_count p c))))
               = unat (effective_count p c)"
    by (rule copy_from_user_length)
  show ?thesis
    using assms neg len
    by (auto simp add: pcd_write_def Let_def split: if_splits prod.splits)
qed

text \<open>
  Claim C10. \<open>pcd_lseek\<close> leaves the buffer unchanged, \<open>pcd_open\<close> and \<open>pcd_release\<close> leave
  the whole state unchanged, and so does every \<open>pcd_read\<close> that returns, with a byte count
  or with an error. A \<open>pcd_write\<close> that returns a positive count \<open>r\<close> at position \<open>p\<close> keeps
  the length of the buffer, stays within it, and leaves every byte at an index below \<open>p\<close>
  or from \<open>p + r\<close> on unchanged.
\<close>

theorem buffer_footprint:
  "device_buffer (snd (pcd_lseek s filp off whence)) = device_buffer s
   \<and> snd (pcd_open s inode filp) = s
   \<and> snd (pcd_release s inode filp) = s
   \<and> (\<forall>r p' s' u. pcd_read s filp buff c p = Ret r p' s' u \<longrightarrow> s' = s)
   \<and> (\<forall>r p' s' u.
        wf_state s \<and> pcd_write s filp buff c p = Ret r p' s' u \<and> 0 < sint r \<longrightarrow>
          length (device_buffer s') = length (device_buffer s)
          \<and> unat p + unat r \<le> 512
          \<and> (\<forall>i. i < unat p \<or> unat p + unat r \<le> i \<longrightarrow>
                device_buffer s' ! i = device_buffer s ! i))"
proof -
  have a: "device_buffer (snd (pcd_lseek s filp off whence)) = device_buffer s"
    by (simp add: pcd_lseek_def Let_def)
  have b: "snd (pcd_open s inode filp) = s" "snd (pcd_release s inode filp) = s"
    by (simp_all add: pcd_open_def pcd_release_def)
  have c: "s' = s" if "pcd_read s filp buff c p = Ret r p' s' u" for r p' s' u
    using that by (auto simp add: pcd_read_def Let_def split: if_splits prod.splits)
  have d: "length (device_buffer s') = length (device_buffer s)
           \<and> unat p + unat r \<le> 512
           \<and> (\<forall>i. i < unat p \<or> unat p + unat r \<le> i \<longrightarrow>
                 device_buffer s' ! i = device_buffer s ! i)"
    if wf: "wf_state s" and w: "pcd_write s filp buff c p = Ret r p' s' u" and pos: "0 < sint r"
    for r p' s' u
  proof -
    from pcd_write_success[OF w pos] obtain data where
      inb: "in_buffer p r" and ld: "length data = unat r"
      and buf: "device_buffer s' =
                  take (unat p) (device_buffer s) @ data
                    @ drop (unat p + unat r) (device_buffer s)"
      by blast
    have le: "unat p + unat r \<le> 512" by (rule in_buffer_unat[OF inb])
    have len: "length (device_buffer s) = 512"
      using wf by (simp add: wf_state_def DEV_MEM_SIZE_def)
    have fit: "unat p + unat r \<le> length (device_buffer s)" using le len by simp
    have l: "length (device_buffer s') = length (device_buffer s)"
      unfolding buf using fit ld by simp
    have "device_buffer s' ! i = device_buffer s ! i"
      if "i < unat p \<or> unat p + unat r \<le> i" for i
      unfolding buf by (rule splice_nth[OF fit ld that])
    then show ?thesis using l le by blast
  qed
  show ?thesis using a b c d by blast
qed

text \<open>
  A read of two bytes at position 0, and a write of two bytes at position 3 that leaves
  the byte at index 2 as it was.
\<close>

theorem buffer_footprint_witness:
  "pcd_read initial_state 0 [9, 9] 2 0 = Ret 2 2 initial_state [0, 0]
   \<and> wf_state initial_state
   \<and> pcd_write initial_state 0 [7, 8] 2 3
       = Ret 2 5 (r_state (pcd_write initial_state 0 [7, 8] 2 3)) [7, 8]
   \<and> 0 < sint (2 :: ssize_t)
   \<and> ((2 :: nat) < unat (3 :: loff_t) \<or> unat (3 :: loff_t) + unat (2 :: ssize_t) \<le> 2)
   \<and> device_buffer (r_state (pcd_write initial_state 0 [7, 8] 2 3)) ! 2
       = device_buffer initial_state ! 2
   \<and> length (device_buffer (r_state (pcd_write initial_state 0 [7, 8] 2 3))) = 512"
proof -
  have two: "replicate 2 (0 :: byte) = [0, 0]"
    by (simp add: numeral_2_eq_2)
  have h1: "wf_state initial_state"
    by (simp add: wf_state_def initial_state_def DEV_MEM_SIZE_def)
  have rd: "pcd_read initial_state 0 [9, 9] 2 0 = Ret 2 2 initial_state [0, 0]"
    by (simp add: pcd_read_def Let_def effective_count_def in_buffer_def DEV_MEM_SIZE_def
        copy_to_user_def two initial_state_def check_copy_size_def INT_MAX_def)
  have wr: "pcd_write initial_state 0 [7, 8] 2 3
       = Ret 2 5 (r_state (pcd_write initial_state 0 [7, 8] 2 3)) [7, 8]"
    by (simp add: pcd_write_def Let_def effective_count_def in_buffer_def DEV_MEM_SIZE_def
        copy_from_user_def check_copy_size_def INT_MAX_def)
  have h3: "0 < sint (2 :: ssize_t)" by simp
  have h4: "(2 :: nat) < unat (3 :: loff_t) \<or> unat (3 :: loff_t) + unat (2 :: ssize_t) \<le> 2"
    by simp
  have len: "length (device_buffer initial_state) = 512"
    by (simp add: initial_state_def)
  from buffer_footprint[of initial_state 0 0 0 0 "[7, 8]" 2 3]
  have "\<forall>r p' s' u.
        wf_state initial_state \<and> pcd_write initial_state 0 [7, 8] 2 3 = Ret r p' s' u
          \<and> 0 < sint r \<longrightarrow>
          length (device_buffer s') = length (device_buffer initial_state)
          \<and> unat (3 :: loff_t) + unat r \<le> 512
          \<and> (\<forall>i. i < unat (3 :: loff_t) \<or> unat (3 :: loff_t) + unat r \<le> i \<longrightarrow>
                device_buffer s' ! i = device_buffer initial_state ! i)"
    by blast
  from this[rule_format, of 2 5 "r_state (pcd_write initial_state 0 [7, 8] 2 3)" "[7, 8]"]
    h1 wr h3
  have "length (device_buffer (r_state (pcd_write initial_state 0 [7, 8] 2 3)))
          = length (device_buffer initial_state)
        \<and> (\<forall>i. i < unat (3 :: loff_t) \<or> unat (3 :: loff_t) + unat (2 :: ssize_t) \<le> i \<longrightarrow>
                device_buffer (r_state (pcd_write initial_state 0 [7, 8] 2 3)) ! i
                  = device_buffer initial_state ! i)"
    by blast
  then show ?thesis using rd h1 wr h3 h4 len by simp
qed

section \<open>Transfer faults\<close>

text \<open>
  Claim C7, as the code has it. Whenever \<open>pcd_read\<close> or \<open>pcd_write\<close> reaches its copy (the
  effective count is not 0 and the range lies in the buffer) and the copy primitive
  reports uncopied bytes, the call returns \<open>-EFAULT\<close> and the position is the one it was
  given. A faulting read leaves the whole driver state unchanged. A faulting write leaves
  every \<open>struct file\<close>, the length of the buffer and every byte outside the destination
  range \<open>[p, p + n)\<close> unchanged; about the bytes inside that range nothing is promised.
\<close>

theorem transfer_fault:
  assumes "wf_state s" and "effective_count p c \<noteq> 0" and "in_buffer p (effective_count p c)"
  shows "(fst (copy_to_user buff
               (take (unat (effective_count p c)) (drop (unat p) (device_buffer s)))
               (unat (effective_count p c))) \<noteq> 0
          \<longrightarrow> (\<exists>u. pcd_read s filp buff c p = Ret (- EFAULT) p s u))
       \<and> (fst (copy_from_user buff (unat (effective_count p c))) \<noteq> 0
          \<longrightarrow> (\<exists>s'. pcd_write s filp buff c p = Ret (- EFAULT) p s' buff
                 \<and> files s' = files s
                 \<and> length (device_buffer s') = length (device_buffer s)
                 \<and> (\<forall>i. i < unat p \<or> unat p + unat (effective_count p c) \<le> i \<longrightarrow>
                       device_buffer s' ! i = device_buffer s ! i)))"
proof -
  let ?n = "unat (effective_count p c)"
  let ?data = "snd (copy_from_user buff ?n)"
  let ?buf' = "take (unat p) (device_buffer s) @ ?data @ drop (unat p + ?n) (device_buffer s)"
  have rd: "\<exists>u. pcd_read s filp buff c p = Ret (- EFAULT) p s u"
    if "fst (copy_to_user buff (take ?n (drop (unat p) (device_buffer s))) ?n) \<noteq> 0"
    using that assms(2,3) in_buffer_check_copy_size[OF assms(3)]
    by (auto simp add: pcd_read_def Let_def split: prod.splits)
  have ld: "length ?data = ?n" by (rule copy_from_user_length)
  have fit: "unat p + ?n \<le> length (device_buffer s)"
    using in_buffer_unat[OF assms(3)] assms(1) by (simp add: wf_state_def DEV_MEM_SIZE_def)
  have len: "length ?buf' = length (device_buffer s)"
    using fit ld by simp
  have frame: "?buf' ! i = device_buffer s ! i" if "i < unat p \<or> unat p + ?n \<le> i" for i
    by (rule splice_nth[OF fit ld that])
  have wr: "pcd_write s filp buff c p = Ret (- EFAULT) p (s\<lparr>device_buffer := ?buf'\<rparr>) buff"
    if "fst (copy_from_user buff ?n) \<noteq> 0"
    using that assms(2,3) in_buffer_check_copy_size[OF assms(3)]
    by (auto simp add: pcd_write_def Let_def split: prod.splits)
  have "\<exists>s'. pcd_write s filp buff c p = Ret (- EFAULT) p s' buff
                 \<and> files s' = files s
                 \<and> length (device_buffer s') = length (device_buffer s)
                 \<and> (\<forall>i. i < unat p \<or> unat p + ?n \<le> i \<longrightarrow>
                       device_buffer s' ! i = device_buffer s ! i)"
    if f: "fst (copy_from_user buff ?n) \<noteq> 0"
  proof (intro exI conjI)
    show "pcd_write s filp buff c p = Ret (- EFAULT) p (s\<lparr>device_buffer := ?buf'\<rparr>) buff"
      by (rule wr[OF f])
    show "files (s\<lparr>device_buffer := ?buf'\<rparr>) = files s" by simp
    show "length (device_buffer (s\<lparr>device_buffer := ?buf'\<rparr>)) = length (device_buffer s)"
      using len by simp
    show "\<forall>i. i < unat p \<or> unat p + ?n \<le> i \<longrightarrow>
            device_buffer (s\<lparr>device_buffer := ?buf'\<rparr>) ! i = device_buffer s ! i"
      using frame by simp
  qed
  then show ?thesis using rd by blast
qed

text \<open>Both calls at position 0 with count 5 and a caller buffer without accessible bytes.\<close>

theorem transfer_fault_witness:
  "wf_state initial_state \<and> effective_count 0 5 \<noteq> 0 \<and> in_buffer 0 (effective_count 0 5)
   \<and> fst (copy_to_user [] (take (unat (effective_count 0 5))
             (drop (unat (0 :: loff_t)) (device_buffer initial_state)))
             (unat (effective_count 0 5))) \<noteq> 0
   \<and> fst (copy_from_user [] (unat (effective_count 0 5))) \<noteq> 0
   \<and> (\<exists>u. pcd_read initial_state 0 [] 5 0 = Ret (- EFAULT) 0 initial_state u)
   \<and> (\<exists>s'. pcd_write initial_state 0 [] 5 0 = Ret (- EFAULT) 0 s' []
          \<and> files s' = files initial_state
          \<and> device_buffer s' ! 5 = device_buffer initial_state ! 5)"
proof -
  have e: "effective_count 0 5 = 5"
    by (simp add: effective_count_def DEV_MEM_SIZE_def)
  have h0: "wf_state initial_state"
    by (simp add: wf_state_def initial_state_def DEV_MEM_SIZE_def)
  have h1: "effective_count 0 5 \<noteq> 0" by (simp add: e)
  have h2: "in_buffer 0 (effective_count 0 5)"
    by (simp add: e in_buffer_def DEV_MEM_SIZE_def)
  have h3: "fst (copy_to_user [] (take (unat (effective_count 0 5))
             (drop (unat (0 :: loff_t)) (device_buffer initial_state)))
             (unat (effective_count 0 5))) \<noteq> 0"
    by (simp add: e copy_to_user_def)
  have h4: "fst (copy_from_user [] (unat (effective_count 0 5))) \<noteq> 0"
    by (simp add: e copy_from_user_def)
  have h5: "(5 :: nat) < unat (0 :: loff_t) \<or> unat (0 :: loff_t) + unat (effective_count 0 5) \<le> 5"
    by (simp add: e)
  show ?thesis
    using transfer_fault[OF h0 h1 h2, of "[]" 0] h0 h1 h2 h3 h4 h5 by blast
qed

text \<open>
  Claim C7 as stated says that a transfer failure mutates no state. \<open>pcd_write\<close> copies
  straight into \<open>device_buffer\<close>, so a copy that faults after the first byte has already
  stored that byte: with one accessible source byte and count 2 the call returns
  \<open>-EFAULT\<close> at an unchanged position, and byte 0 of the buffer has changed from 0 to 7.
\<close>

theorem transfer_fault_counterexample:
  "fst (copy_from_user [7] (unat (effective_count 0 2))) \<noteq> 0
   \<and> retval (pcd_write initial_state 0 [7] 2 0) = - EFAULT
   \<and> r_pos (pcd_write initial_state 0 [7] 2 0) = 0
   \<and> device_buffer initial_state ! 0 = 0
   \<and> device_buffer (r_state (pcd_write initial_state 0 [7] 2 0)) ! 0 = 7"
  by (simp add: pcd_write_def Let_def effective_count_def in_buffer_def DEV_MEM_SIZE_def
      copy_from_user_def initial_state_def check_copy_size_def INT_MAX_def)

end
